theory Spec2Isabelle
  imports Complex_Main "HOL-Library.AList" "HOL-Library.Word"
begin

section \<open>Data model of the FileUploader component\<close>

text \<open>
  A browser \<open>File\<close> as far as the component reads it: \<open>file.name\<close>, \<open>file.size\<close>
  (a byte count) and \<open>file.type\<close> (the declared MIME type). Names are modelled as
  strings of 8-bit characters.
\<close>

record File =
  name :: string
  size_bytes :: nat
  type :: string

text \<open>
  What \<open>await validateFile(file)\<close> can do: deliver a boolean, or throw (a rejected
  promise throws at the \<open>await\<close>).
\<close>

datatype predicate_result = Returns bool | Throws

text \<open>
  The props the handlers read. The numeric limits are the integers the caller passes; an
  absent \<open>validateFile\<close> or \<open>uploadUrl\<close> is \<open>None\<close>.
\<close>

record props =
  multiple :: bool
  maxFileSize :: int
  maxTotalSize :: int
  maxFiles :: int
  allowedTypes :: "string list"
  allowedMimeTypes :: "string list"
  validateFile :: "(File \<Rightarrow> predicate_result) option"
  uploadUrl :: "string option"
  autoUpload :: bool
  disabled :: bool

datatype upload_status = Idle | Uploading | Success | Error

text \<open>
  A \<open>Record<string, string>\<close> is kept as the list of its own properties in the order
  \<open>Object.keys\<close> and \<open>Object.values\<close> enumerate them.
\<close>

type_synonym js_record = "(string \<times> string) list"

text \<open>
  A JavaScript number: a finite binary64 value, kept as the rational it denotes, or one
  of the two non-finite values a quotient of byte counts can be.
\<close>

datatype js_number = Num rat | PosInfinity | NaN

text \<open>The component state held in \<open>useState\<close> cells.\<close>

record state =
  files :: "File list"
  validationErrors :: js_record
  uploadProgress :: js_number
  isUploading :: bool
  uploadStatus :: upload_status

text \<open>
  Everything a handler does besides updating the state, in the order it happens: toasts
  (title, description, whether the variant is \<open>destructive\<close>), the optional calls
  \<open>onX?.(...)\<close> to the caller's callbacks (an \<open>Error\<close> is recorded by its message), the
  call of the custom predicate, and the two calls that put a request on the wire.
\<close>

datatype effect =
    Toast string string bool
  | ValidateFile File
  | OnFileSelected "File list"
  | OnValidationError string
  | OnUploadProgress js_number
  | OnUploadSuccess "File list"
  | OnUploadError string
  | XhrOpen string string
  | XhrSend "(string \<times> File) list"

text \<open>
  Two things are taken from the host as given. \<open>formatBytes\<close> is the component's own
  formatter, which computes with \<open>Math.log\<close>, \<open>Math.pow\<close> and \<open>toFixed\<close> on floating-point
  numbers; only its resulting text is used here. \<open>xhr_open_error url\<close> is \<open>Some msg\<close>
  when \<open>xhr.open('POST', url)\<close> throws an \<open>Error\<close> with that message (an unparsable
  URL), and \<open>None\<close> when the request is opened and sent.
\<close>

record host =
  formatBytes :: "int \<Rightarrow> string"
  xhr_open_error :: "string \<Rightarrow> string option"

section \<open>Strings and numbers\<close>

text \<open>\<open>String.prototype.toLowerCase\<close> on the letters \<open>A\<close> to \<open>Z\<close>.\<close>

definition toLowerCase_char :: "char \<Rightarrow> char" where
  "toLowerCase_char c =
     (let n = (of_char c :: nat) in if 65 \<le> n \<and> n \<le> 90 then char_of (n + 32) else c)"

definition toLowerCase :: "string \<Rightarrow> string" where
  "toLowerCase s = map toLowerCase_char s"

text \<open>
  \<open>s.split('.').pop()\<close>: the piece after the last dot, the whole string when it has no
  dot. \<open>split\<close> never returns an empty array, so \<open>pop\<close> is never \<open>undefined\<close>.
\<close>

definition split_pop :: "string \<Rightarrow> string" where
  "split_pop s = rev (takeWhile (\<lambda>c. c \<noteq> CHR ''.'') (rev s))"

text \<open>
  Template-literal conversion of a number: the decimal digits, for the integers below
  \<open>10^21\<close> in absolute value, which JavaScript prints without an exponent.
\<close>

fun digits :: "nat \<Rightarrow> string" where
  "digits n =
     (if n < 10 then [char_of (48 + n)] else digits (n div 10) @ [char_of (48 + n mod 10)])"

declare digits.simps [simp del]

definition number_toString :: "int \<Rightarrow> string" where
  "number_toString i = (if i < 0 then CHR ''-'' # digits (nat (- i)) else digits (nat i))"

text \<open>\<open>Array.prototype.join\<close>.\<close>

fun join :: "string \<Rightarrow> string list \<Rightarrow> string" where
  "join sep [] = []"
| "join sep [x] = x"
| "join sep (x # y # ys) = x @ sep @ join sep (y # ys)"

section \<open>Floating-point arithmetic\<close>

text \<open>
  \<open>ilog2 x\<close> is the binary exponent of a positive rational, the integer \<open>e\<close> with
  \<open>2^e \<le> x < 2^(e+1)\<close>; it is found from the bit lengths of numerator and denominator.
\<close>

function ilog2_int :: "int \<Rightarrow> int" where
  "ilog2_int a = (if a < 2 then 0 else 1 + ilog2_int (a div 2))"
  by pat_completeness auto
termination
  by (relation "measure nat") auto

declare ilog2_int.simps [simp del]

definition ilog2 :: "rat \<Rightarrow> int" where
  "ilog2 x =
     (case quotient_of x of (a, b) \<Rightarrow>
        let d = ilog2_int a - ilog2_int b
        in if 2 powi d \<le> x then d else d - 1)"

text \<open>Rounding to the nearest integer, a tie going to the even one.\<close>

definition round_ties_even :: "rat \<Rightarrow> int" where
  "round_ties_even z =
     (let n = \<lfloor>z\<rfloor>; r = z - of_int n
      in if r < 1 / 2 then n else if 1 / 2 < r then n + 1 else if even n then n else n + 1)"

text \<open>
  The binary64 value of a non-negative real result, as IEEE 754 arithmetic in the
  default rounding mode delivers it: the nearest number with a 53-bit significand, a
  tie going to the even significand. Exponent overflow and underflow are not modelled;
  the numbers rounded below are zero or lie between \<open>2^-64\<close> and \<open>2^71\<close>, far inside
  the normal range.
\<close>

definition to_double :: "rat \<Rightarrow> rat" where
  "to_double x =
     (if x \<le> 0 then 0
      else let ulp = 2 powi (ilog2 x - 52) in of_int (round_ties_even (x / ulp)) * ulp)"

text \<open>\<open>Math.round\<close>: the nearest integer, a tie going up.\<close>

definition Math_round :: "rat \<Rightarrow> int" where
  "Math_round x = \<lfloor>x + 1 / 2\<rfloor>"

text \<open>
  The attributes \<open>loaded\<close> and \<open>total\<close> of a progress event are \<open>unsigned long long\<close>;
  read from JavaScript they become the nearest binary64 value.
\<close>

definition ToNumber :: "64 word \<Rightarrow> rat" where
  "ToNumber w = to_double (of_int (uint w))"

section \<open>Objects used as dictionaries\<close>

text \<open>
  Own properties are enumerated with the array indices first, in ascending numeric
  order, then the other string keys in the order they were created. An array index is
  the canonical decimal text of an integer below \<open>2^32 - 1\<close>.
\<close>

definition is_digit :: "char \<Rightarrow> bool" where
  "is_digit c = (48 \<le> (of_char c :: nat) \<and> (of_char c :: nat) \<le> 57)"

definition dec_val :: "string \<Rightarrow> nat" where
  "dec_val s = foldl (\<lambda>a c. 10 * a + ((of_char c :: nat) - 48)) 0 s"

definition is_array_index :: "string \<Rightarrow> bool" where
  "is_array_index s =
     (s \<noteq> [] \<and> list_all is_digit s \<and> (hd s = CHR ''0'' \<longrightarrow> s = ''0'')
      \<and> dec_val s < 2 ^ 32 - 1)"

fun insert_index :: "string \<Rightarrow> string \<Rightarrow> js_record \<Rightarrow> js_record" where
  "insert_index k v [] = [(k, v)]"
| "insert_index k v ((k', v') # r) =
     (if is_array_index k' \<and> dec_val k' < dec_val k then (k', v') # insert_index k v r
      else (k, v) # (k', v') # r)"

text \<open>
  Creating or overwriting an own data property: an existing key keeps its place, a new
  array index goes among the indices, any other new key goes last.
\<close>

definition define_property :: "js_record \<Rightarrow> string \<Rightarrow> string \<Rightarrow> js_record" where
  "define_property r k v =
     (if k \<notin> fst ` set r \<and> is_array_index k then insert_index k v r
      else AList.update k v r)"

text \<open>
  The assignment \<open>obj[k] = v\<close> on an object literal. For the key \<open>__proto__\<close> it runs
  the setter inherited from \<open>Object.prototype\<close>, which ignores a string value: no
  property is created.
\<close>

definition record_set :: "js_record \<Rightarrow> string \<Rightarrow> string \<Rightarrow> js_record" where
  "record_set r k v = (if k = ''__proto__'' then r else define_property r k v)"

text \<open>\<open>{...prev, ...newErrors}\<close>: the properties of \<open>prev\<close>, then those of \<open>newErrors\<close>.\<close>

definition spread :: "js_record \<Rightarrow> js_record \<Rightarrow> js_record" where
  "spread prev newErrors = foldl (\<lambda>r (k, v). define_property r k v) prev newErrors"

section \<open>Validation of one file\<close>

text \<open>
  \<open>`.${file.name.split('.').pop()?.toLowerCase()}`\<close>: the extension carries its dot, as
  the entries of \<open>allowedTypes\<close> do.
\<close>

definition fileExtension :: "File \<Rightarrow> string" where
  "fileExtension file = CHR ''.'' # toLowerCase (split_pop (name file))"

datatype outcome = Valid | Invalid string

text \<open>
  The body of the loop \<open>for (const file of fileArray)\<close> in \<open>handleFileChange\<close>:
  \<open>Valid\<close> where the file is pushed on \<open>validFiles\<close>, \<open>Invalid reason\<close> where
  \<open>newErrors[file.name] = reason\<close> is executed. The \<open>catch\<close> block is reached only from
  the custom predicate.
\<close>

definition validate :: "host \<Rightarrow> props \<Rightarrow> File \<Rightarrow> outcome \<times> effect list" where
  "validate h p file =
     (if int (size_bytes file) > maxFileSize p then
        (Invalid (''File exceeds maximum size of '' @ formatBytes h (maxFileSize p)), [])
      else if allowedTypes p \<noteq> [] \<and> fileExtension file \<notin> set (allowedTypes p) then
        (Invalid (''File type '' @ fileExtension file @ '' not allowed''), [])
      else if allowedMimeTypes p \<noteq> [] \<and> type file \<notin> set (allowedMimeTypes p) then
        (Invalid (''File type '' @ type file @ '' not allowed''), [])
      else
        (case validateFile p of
           None \<Rightarrow> (Valid, [])
         | Some pred \<Rightarrow>
             (case pred file of
                Returns True \<Rightarrow> (Valid, [ValidateFile file])
              | Returns False \<Rightarrow> (Invalid ''File failed custom validation'', [ValidateFile file])
              | Throws \<Rightarrow> (Invalid ''Error validating file'', [ValidateFile file]))))"

text \<open>The loop itself, with its two accumulators and the trace of predicate calls.\<close>

fun validation_loop ::
  "host \<Rightarrow> props \<Rightarrow> File list \<Rightarrow> js_record \<times> File list \<times> effect list
    \<Rightarrow> js_record \<times> File list \<times> effect list" where
  "validation_loop h p [] acc = acc"
| "validation_loop h p (file # rest) (newErrors, validFiles, effs) =
     (case validate h p file of
        (Valid, es) \<Rightarrow> validation_loop h p rest (newErrors, validFiles @ [file], effs @ es)
      | (Invalid reason, es) \<Rightarrow>
          validation_loop h p rest (record_set newErrors (name file) reason, validFiles, effs @ es))"

section \<open>Upload\<close>

text \<open>
  \<open>handleUpload(filesToUpload)\<close> up to \<open>xhr.send(formData)\<close>. The form data is the list
  of its parts, each with its field name.
\<close>

definition handleUpload :: "host \<Rightarrow> props \<Rightarrow> File list \<Rightarrow> state \<Rightarrow> state \<times> effect list" where
  "handleUpload h p filesToUpload st =
     (case uploadUrl p of
        None \<Rightarrow> (st, [])
      | Some url \<Rightarrow>
          if url = [] \<or> filesToUpload = [] then (st, [])
          else
            let st1 = st\<lparr>isUploading := True, uploadStatus := Uploading, uploadProgress := Num 0\<rparr>
            in (case xhr_open_error h url of
                  None \<Rightarrow>
                    (st1, [XhrOpen ''POST'' url, XhrSend (map (Pair ''files'') filesToUpload)])
                | Some msg \<Rightarrow>
                    (st1\<lparr>uploadStatus := Error, isUploading := False\<rparr>,
                     [OnUploadError msg, Toast ''Upload failed'' msg True])))"

text \<open>
  \<open>Math.round((event.loaded / event.total) * 100)\<close>, for a total that is not zero:
  a division and a multiplication in binary64, then \<open>Math.round\<close>.
\<close>

definition percent :: "64 word \<Rightarrow> 64 word \<Rightarrow> int" where
  "percent loaded tot =
     Math_round (to_double (to_double (ToNumber loaded / ToNumber tot) * 100))"

text \<open>The same for any total: \<open>0 / 0\<close> is \<open>NaN\<close>, and \<open>x / 0\<close> is \<open>Infinity\<close> for \<open>x > 0\<close>.\<close>

definition progress_value :: "64 word \<Rightarrow> 64 word \<Rightarrow> js_number" where
  "progress_value loaded tot =
     (if ToNumber tot = 0 then (if ToNumber loaded = 0 then NaN else PosInfinity)
      else Num (of_int (percent loaded tot)))"

text \<open>
  The events of the request and the listeners \<open>handleUpload\<close> registered for them:
  \<open>progress\<close> on \<open>xhr.upload\<close> with \<open>lengthComputable\<close>, \<open>loaded\<close> and \<open>total\<close>;
  \<open>load\<close> with \<open>xhr.status\<close> and \<open>xhr.statusText\<close>; and \<open>error\<close>. The listeners close
  over \<open>filesToUpload\<close>.
\<close>

datatype xhr_event = Progress bool "64 word" "64 word" | Load nat string | NetworkError

fun xhr_listener :: "File list \<Rightarrow> xhr_event \<Rightarrow> state \<Rightarrow> state \<times> effect list" where
  "xhr_listener filesToUpload (Progress lengthComputable loaded tot) st =
     (if lengthComputable then
        (st\<lparr>uploadProgress := progress_value loaded tot\<rparr>,
         [OnUploadProgress (progress_value loaded tot)])
      else (st, []))"
| "xhr_listener filesToUpload (Load status statusText) st =
     (if status \<ge> 200 \<and> status < 300 then
        (st\<lparr>uploadStatus := Success, isUploading := False\<rparr>,
         [OnUploadSuccess filesToUpload,
          Toast ''Upload successful''
            (digits (length filesToUpload) @ '' file''
              @ (if length filesToUpload > 1 then ''s'' else '''') @ '' uploaded successfully.'')
            False])
      else
        (st\<lparr>uploadStatus := Error, isUploading := False\<rparr>,
         [OnUploadError (''Upload failed with status '' @ digits status),
          Toast ''Upload failed'' (''Error: '' @ statusText) True]))"
| "xhr_listener filesToUpload NetworkError st =
     (st\<lparr>uploadStatus := Error, isUploading := False\<rparr>,
      [OnUploadError ''Network error during upload'',
       Toast ''Upload failed'' ''Network error during upload. Please try again.'' True])"

text \<open>The events of one request, delivered in order to its listeners.\<close>

fun run_events :: "File list \<Rightarrow> xhr_event list \<Rightarrow> state \<Rightarrow> state \<times> effect list" where
  "run_events filesToUpload [] st = (st, [])"
| "run_events filesToUpload (e # es) st =
     (case xhr_listener filesToUpload e st of
        (st1, out1) \<Rightarrow>
          (case run_events filesToUpload es st1 of (st2, out2) \<Rightarrow> (st2, out1 @ out2)))"

section \<open>Selection\<close>

definition totalSize :: "File list \<Rightarrow> nat" where
  "totalSize fs = foldl (\<lambda>acc file. acc + size_bytes file) 0 fs"

definition tooManyFiles :: "props \<Rightarrow> string" where
  "tooManyFiles p = ''Maximum '' @ number_toString (maxFiles p) @ '' files allowed''"

definition totalSizeExceeded :: "host \<Rightarrow> props \<Rightarrow> string" where
  "totalSizeExceeded h p = ''Total size exceeds maximum of '' @ formatBytes h (maxTotalSize p)"

text \<open>
  The two steps that follow the limit checks in both modes. The first notifies
  \<open>onFileSelected\<close> of the valid files, if there are any, and uploads exactly those
  files when \<open>autoUpload && uploadUrl\<close> holds; it runs on the state in which \<open>setFiles\<close>
  has been applied. The second reports the collected errors, if there are any;
  \<open>new_errors\<close> is the value given to \<open>setValidationErrors\<close>.
\<close>

definition select_valid ::
  "host \<Rightarrow> props \<Rightarrow> File list \<Rightarrow> state \<Rightarrow> state \<times> effect list" where
  "select_valid h p validFiles st =
     (if validFiles \<noteq> [] then
        (if autoUpload p \<and> uploadUrl p \<noteq> None \<and> uploadUrl p \<noteq> Some [] then
           (let (st', es) = handleUpload h p validFiles st in (st', OnFileSelected validFiles # es))
         else (st, [OnFileSelected validFiles]))
      else (st, []))"

definition report_errors :: "js_record \<Rightarrow> js_record \<Rightarrow> state \<Rightarrow> state \<times> effect list" where
  "report_errors newErrors new_errors st =
     (if newErrors \<noteq> [] then
        (st\<lparr>validationErrors := new_errors\<rparr>, [OnValidationError (join '', '' (map snd newErrors))])
      else (st, []))"

text \<open>
  \<open>handleFileChange(selectedFiles)\<close>. The argument \<open>files_seen\<close> is the binding \<open>files\<close>
  the handler closes over, the selection of the render that created it; the memoised
  \<open>totalSize\<close> is computed from it. The functional updates \<open>setFiles((prev) => ...)\<close>
  and \<open>setValidationErrors((prev) => ...)\<close> read the state \<open>st\<close> itself. A \<open>null\<close>
  argument is \<open>None\<close>.
\<close>

definition handleFileChange ::
  "host \<Rightarrow> props \<Rightarrow> File list \<Rightarrow> File list option \<Rightarrow> state \<Rightarrow> state \<times> effect list" where
  "handleFileChange h p files_seen selectedFiles st =
     (case selectedFiles of
        None \<Rightarrow> (st, [])
      | Some fileArray \<Rightarrow>
          (case validation_loop h p fileArray ([], [], []) of
             (newErrors, validFiles, calls) \<Rightarrow>
               if multiple p then
                 if int (length files_seen + length validFiles) > maxFiles p then
                   (st, calls @
                     [Toast (tooManyFiles p) ''Please remove some files before adding more.'' True,
                      OnValidationError (tooManyFiles p)])
                 else if int (totalSize files_seen + totalSize validFiles) > maxTotalSize p then
                   (st, calls @
                     [Toast (totalSizeExceeded h p) ''Please remove some files before adding more.'' True,
                      OnValidationError (totalSizeExceeded h p)])
                 else
                   (let (st1, es1) =
                          select_valid h p validFiles
                            (if validFiles \<noteq> [] then st\<lparr>files := files st @ validFiles\<rparr> else st);
                        (st2, es2) =
                          report_errors newErrors (spread (validationErrors st1) newErrors) st1
                    in (st2, calls @ es1 @ es2))
               else
                 (let (st1, es1) = select_valid h p validFiles (st\<lparr>files := validFiles\<rparr>);
                      (st2, es2) = report_errors newErrors newErrors st1
                  in (st2, calls @ es1 @ es2))))"

text \<open>
  The handler of the hidden input, \<open>onChange={(e) => handleFileChange(e.target.files)}\<close>,
  is created anew by every render, so the selection it sees is the current one.
\<close>

definition onChange :: "host \<Rightarrow> props \<Rightarrow> File list option \<Rightarrow> state \<Rightarrow> state \<times> effect list" where
  "onChange h p selectedFiles st = handleFileChange h p (files st) selectedFiles st"

text \<open>
  \<open>handleDrop\<close> is memoised: \<open>useCallback(..., [disabled])\<close>. While \<open>disabled\<close> keeps
  its value, every render reuses the callback of the first render, and the
  \<open>handleFileChange\<close> which that callback calls closes over the \<open>files\<close> and \<open>totalSize\<close>
  of the first render, the initial \<open>useState<File[]>([])\<close>. The props are taken not to
  change during the life of the component. \<open>e.dataTransfer.files\<close> is a \<open>FileList\<close>.
\<close>

definition handleDrop :: "host \<Rightarrow> props \<Rightarrow> File list \<Rightarrow> state \<Rightarrow> state \<times> effect list" where
  "handleDrop h p dropped st =
     (if disabled p then (st, []) else handleFileChange h p [] (Some dropped) st)"

text \<open>
  The Upload button is rendered when \<open>files.length > 0\<close> and \<open>uploadUrl\<close> is truthy, with
  \<open>disabled={isUploading || disabled || isOverMaxTotalSize || isOverMaxFiles ||
  files.length === 0}\<close>; a click on the enabled button calls \<open>handleUpload()\<close>, whose
  default argument is \<open>files\<close>.
\<close>

definition upload_button_enabled :: "props \<Rightarrow> state \<Rightarrow> bool" where
  "upload_button_enabled p st =
     (files st \<noteq> [] \<and> uploadUrl p \<noteq> None \<and> uploadUrl p \<noteq> Some []
      \<and> \<not> (isUploading st \<or> disabled p \<or> int (totalSize (files st)) > maxTotalSize p
            \<or> int (length (files st)) > maxFiles p \<or> files st = []))"

definition click_upload :: "host \<Rightarrow> props \<Rightarrow> state \<Rightarrow> state \<times> effect list" where
  "click_upload h p st =
     (if upload_button_enabled p st then handleUpload h p (files st) st else (st, []))"

section \<open>Predicates in which the properties are stated\<close>

definition size_ok :: "props \<Rightarrow> File \<Rightarrow> bool" where
  "size_ok p file = (int (size_bytes file) \<le> maxFileSize p)"

definition extension_ok :: "props \<Rightarrow> File \<Rightarrow> bool" where
  "extension_ok p file = (allowedTypes p = [] \<or> fileExtension file \<in> set (allowedTypes p))"

definition mime_ok :: "props \<Rightarrow> File \<Rightarrow> bool" where
  "mime_ok p file = (allowedMimeTypes p = [] \<or> type file \<in> set (allowedMimeTypes p))"

text \<open>A file is accepted when the loop body pushes it on \<open>validFiles\<close>.\<close>

definition accepted :: "host \<Rightarrow> props \<Rightarrow> File \<Rightarrow> bool" where
  "accepted h p file = (fst (validate h p file) = Valid)"

text \<open>The calls of the custom predicate made while a batch is validated.\<close>

definition predicate_calls :: "host \<Rightarrow> props \<Rightarrow> File list \<Rightarrow> effect list" where
  "predicate_calls h p fs = concat (map (\<lambda>file. snd (validate h p file)) fs)"

text \<open>
  The message of the limit that stops a batch in multiple-file mode, if one does: the
  count is tested before the total size.
\<close>

definition limit_error :: "host \<Rightarrow> props \<Rightarrow> File list \<Rightarrow> File list \<Rightarrow> string option" where
  "limit_error h p files_seen validFiles =
     (if int (length files_seen + length validFiles) > maxFiles p then Some (tooManyFiles p)
      else if int (totalSize files_seen + totalSize validFiles) > maxTotalSize p
      then Some (totalSizeExceeded h p)
      else None)"



text \<open>The percentages passed to \<open>onUploadProgress\<close>, in order.\<close>

definition progress_emitted :: "effect list \<Rightarrow> js_number list" where
  "progress_emitted es =
     concat (map (\<lambda>e. case e of OnUploadProgress n \<Rightarrow> [n] | _ \<Rightarrow> []) es)"

text \<open>The number of requests put on the wire by a list of effects.\<close>

definition requests_sent :: "effect list \<Rightarrow> nat" where
  "requests_sent es = length (filter (\<lambda>e. case e of XhrSend parts \<Rightarrow> True | _ \<Rightarrow> False) es)"

section \<open>Concrete inputs\<close>

text \<open>
  A host whose formatter prints \<open>n Bytes\<close>, which is what \<open>formatBytes\<close> returns for the
  byte counts from 1 to 1023 used below, and whose requests open without an exception.
\<close>

definition demo_host :: host where
  "demo_host =
     \<lparr>formatBytes = (\<lambda>n. number_toString n @ '' Bytes''), xhr_open_error = (\<lambda>url. None)\<rparr>"

definition image_props :: props where
  "image_props =
     \<lparr>multiple = True, maxFileSize = 1000, maxTotalSize = 1500, maxFiles = 2,
      allowedTypes = [''.jpg'', ''.png''], allowedMimeTypes = [''image/jpeg'', ''image/png''],
      validateFile = Some (\<lambda>file. if name file = ''bad.png'' then Returns False else Returns True),
      uploadUrl = None, autoUpload = False, disabled = False\<rparr>"

definition big_exe :: File where
  "big_exe = \<lparr>name = ''big.exe'', size_bytes = 1001, type = ''image/jpeg''\<rparr>"

definition tool_exe :: File where
  "tool_exe = \<lparr>name = ''tool.EXE'', size_bytes = 600, type = ''image/jpeg''\<rparr>"

definition notes_jpg :: File where
  "notes_jpg = \<lparr>name = ''notes.jpg'', size_bytes = 600, type = ''text/plain''\<rparr>"

definition bad_png :: File where
  "bad_png = \<lparr>name = ''bad.png'', size_bytes = 600, type = ''image/png''\<rparr>"

definition file_a :: File where
  "file_a = \<lparr>name = ''a.jpg'', size_bytes = 600, type = ''image/jpeg''\<rparr>"

definition file_b :: File where
  "file_b = \<lparr>name = ''b.png'', size_bytes = 600, type = ''image/png''\<rparr>"

definition file_c :: File where
  "file_c = \<lparr>name = ''c.jpg'', size_bytes = 400, type = ''image/jpeg''\<rparr>"

definition file_d :: File where
  "file_d = \<lparr>name = ''d.jpg'', size_bytes = 200, type = ''image/jpeg''\<rparr>"

definition proto_file :: File where
  "proto_file = \<lparr>name = ''__proto__'', size_bytes = 2000, type = ''text/plain''\<rparr>"

text \<open>The state of a freshly mounted component, and the same with two files selected.\<close>

definition initial_state :: state where
  "initial_state =
     \<lparr>files = [], validationErrors = [], uploadProgress = Num 0, isUploading = False,
      uploadStatus = Idle\<rparr>"

definition state_ab :: state where
  "state_ab = initial_state\<lparr>files := [file_a, file_b]\<rparr>"

text \<open>Single-file mode with the same limits, except that one file at most is allowed.\<close>

definition single_props :: props where
  "single_props = image_props\<lparr>multiple := False, maxFiles := 1\<rparr>"

text \<open>Props with an upload endpoint, without and with automatic upload; a state in mid-upload.\<close>

definition upload_props :: props where
  "upload_props = image_props\<lparr>uploadUrl := Some ''/upload''\<rparr>"

definition auto_props :: props where
  "auto_props = image_props\<lparr>uploadUrl := Some ''/upload'', autoUpload := True\<rparr>"

definition uploading_state :: state where
  "uploading_state =
     \<lparr>files = [file_a], validationErrors = [], uploadProgress = Num 40, isUploading = True,
      uploadStatus = Uploading\<rparr>"

section \<open>Validation of one file: the order of the checks\<close>

lemma split_pop_after_last_dot:
  assumes "CHR ''.'' \<notin> set suffix"
  shows "split_pop (prefix @ CHR ''.'' # suffix) = suffix"
proof -
  have "takeWhile (\<lambda>c. c \<noteq> CHR ''.'') (rev suffix @ CHR ''.'' # rev prefix) = rev suffix"
    using assms by (subst takeWhile_append2) auto
  then show ?thesis by (simp add: split_pop_def)
qed

lemma fileExtension_after_last_dot:
  "name file = prefix @ CHR ''.'' # suffix \<Longrightarrow> CHR ''.'' \<notin> set suffix \<Longrightarrow>
   fileExtension file = CHR ''.'' # toLowerCase suffix"
  by (simp add: fileExtension_def split_pop_after_last_dot)

text \<open>
  C5. The loop body checks the size first, then the extension (only if \<open>allowedTypes\<close>
  is non-empty), then the MIME type (only if \<open>allowedMimeTypes\<close> is non-empty), then the
  custom predicate, and stops at the first check that fails: each reason is the one of
  the first failing check, and the predicate is called only when the three checks
  before it have passed. In particular a file larger than \<open>maxFileSize\<close> gets the
  size reason whatever its extension and MIME type are.
\<close>

theorem validate_check_order:
  "(\<not> size_ok p file \<longrightarrow>
      validate h p file =
        (Invalid (''File exceeds maximum size of '' @ formatBytes h (maxFileSize p)), []))
   \<and> (size_ok p file \<and> \<not> extension_ok p file \<longrightarrow>
      validate h p file = (Invalid (''File type '' @ fileExtension file @ '' not allowed''), []))
   \<and> (size_ok p file \<and> extension_ok p file \<and> \<not> mime_ok p file \<longrightarrow>
      validate h p file = (Invalid (''File type '' @ type file @ '' not allowed''), []))
   \<and> (size_ok p file \<and> extension_ok p file \<and> mime_ok p file \<longrightarrow>
      validate h p file =
        (case validateFile p of
           None \<Rightarrow> (Valid, [])
         | Some pred \<Rightarrow>
             (case pred file of
                Returns b \<Rightarrow> if b then Valid else Invalid ''File failed custom validation''
              | Throws \<Rightarrow> Invalid ''Error validating file'',
              [ValidateFile file])))"
  by (auto simp: validate_def size_ok_def extension_ok_def mime_ok_def
           split: option.splits predicate_result.splits bool.splits)

theorem validate_check_order_witness:
  "(\<not> size_ok image_props big_exe \<and> \<not> extension_ok image_props big_exe
      \<and> validate demo_host image_props big_exe =
          (Invalid ''File exceeds maximum size of 1000 Bytes'', []))
   \<and> (size_ok image_props tool_exe \<and> \<not> extension_ok image_props tool_exe
      \<and> validate demo_host image_props tool_exe = (Invalid ''File type .exe not allowed'', []))
   \<and> (size_ok image_props notes_jpg \<and> extension_ok image_props notes_jpg
      \<and> \<not> mime_ok image_props notes_jpg
      \<and> validate demo_host image_props notes_jpg =
          (Invalid ''File type text/plain not allowed'', []))
   \<and> (size_ok image_props bad_png \<and> extension_ok image_props bad_png
      \<and> mime_ok image_props bad_png
      \<and> validate demo_host image_props bad_png =
          (Invalid ''File failed custom validation'', [ValidateFile bad_png]))"
proof -
  have big: "\<not> size_ok image_props big_exe" "\<not> extension_ok image_props big_exe"
    by code_simp+
  have tool: "size_ok image_props tool_exe" "\<not> extension_ok image_props tool_exe"
    by code_simp+
  have plain: "size_ok image_props notes_jpg" "extension_ok image_props notes_jpg"
    "\<not> mime_ok image_props notes_jpg"
    by code_simp+
  have bad: "size_ok image_props bad_png" "extension_ok image_props bad_png"
    "mime_ok image_props bad_png"
    by code_simp+
  have texts:
    "''File exceeds maximum size of '' @ formatBytes demo_host (maxFileSize image_props)
       = ''File exceeds maximum size of 1000 Bytes''"
    "''File type '' @ fileExtension tool_exe @ '' not allowed'' = ''File type .exe not allowed''"
    "''File type '' @ type notes_jpg @ '' not allowed'' = ''File type text/plain not allowed''"
    by code_simp+
  have pred: "validateFile image_props
      = Some (\<lambda>file. if name file = ''bad.png'' then Returns False else Returns True)"
    "name bad_png = ''bad.png''"
    by (simp_all add: image_props_def bad_png_def)
  show ?thesis
    using validate_check_order [of image_props big_exe demo_host]
      validate_check_order [of image_props tool_exe demo_host]
      validate_check_order [of image_props notes_jpg demo_host]
      validate_check_order [of image_props bad_png demo_host]
      big tool plain bad texts pred
    by simp
qed




section \<open>The validation loop and the files after a selection\<close>

lemma validation_loop_valid:
  "fst (snd (validation_loop h p fs (E, V, C))) = V @ filter (accepted h p) fs"
  by (induction fs arbitrary: E V C) (auto simp: accepted_def split: prod.splits outcome.splits)

lemma validation_loop_calls:
  "snd (snd (validation_loop h p fs (E, V, C))) = C @ predicate_calls h p fs"
  by (induction fs arbitrary: E V C) (auto simp: predicate_calls_def split: prod.splits outcome.splits)

lemma validation_loop_all_valid:
  "\<forall>file \<in> set fs. accepted h p file \<Longrightarrow>
   validation_loop h p fs (E, V, C) = (E, V @ fs, C @ predicate_calls h p fs)"
  by (induction fs arbitrary: E V C) (auto simp: accepted_def predicate_calls_def split: prod.splits outcome.splits)




lemma limit_messages_differ: "tooManyFiles p \<noteq> totalSizeExceeded h p"
  by (simp add: tooManyFiles_def totalSizeExceeded_def)

lemma handleFileChange_multiple_rejected:
  assumes "multiple p" and "limit_error h p files_seen (filter (accepted h p) batch) = Some msg"
  shows "handleFileChange h p files_seen (Some batch) st =
     (st, predicate_calls h p batch @
        [Toast msg ''Please remove some files before adding more.'' True, OnValidationError msg])"
proof -
  obtain E V C where l: "validation_loop h p batch ([], [], []) = (E, V, C)"
    by (cases "validation_loop h p batch ([], [], [])") auto
  have V: "V = filter (accepted h p) batch" using validation_loop_valid[of h p batch "[]" "[]" "[]"] l by simp
  have C: "C = predicate_calls h p batch" using validation_loop_calls[of h p batch "[]" "[]" "[]"] l by simp
  show ?thesis using assms l V C
    by (auto simp: handleFileChange_def limit_error_def split: if_splits)
qed


lemma report_errors_files: "files (fst (report_errors E E' st)) = files st"
  by (auto simp: report_errors_def)

lemma files_after_select_report:
  "files (fst (case select_valid h p V s0 of
                 (st1, es1) \<Rightarrow> (case report_errors E (X st1) st1 of
                    (st2, es2) \<Rightarrow> (st2, C @ es1 @ es2)))) = files s0"
  by (auto simp: select_valid_def report_errors_def handleUpload_def Let_def
           split: option.splits prod.splits)

lemma handleFileChange_single_files:
  assumes "\<not> multiple p"
  shows "files (fst (handleFileChange h p files_seen (Some batch) st)) = filter (accepted h p) batch"
proof -
  obtain E V C where l: "validation_loop h p batch ([], [], []) = (E, V, C)"
    by (cases "validation_loop h p batch ([], [], [])") auto
  have V: "V = filter (accepted h p) batch"
    using validation_loop_valid[of h p batch "[]" "[]" "[]"] l by simp
  show ?thesis
    using assms l V files_after_select_report [where h = h and p = p and V = V and ?s0.0 = "st\<lparr>files := V\<rparr>"
        and E = E and X = "\<lambda>s. E" and C = C]
    by (simp add: handleFileChange_def)
qed


lemma select_valid_no_validation_error:
  "OnValidationError msg \<notin> set (snd (select_valid h p V st))"
  by (auto simp: select_valid_def handleUpload_def Let_def split: option.splits prod.splits)

lemma predicate_calls_no_validation_error:
  "OnValidationError msg \<notin> set (predicate_calls h p fs)"
  by (auto simp: predicate_calls_def validate_def split: option.splits predicate_result.splits bool.splits if_splits)

section \<open>Limits in multiple-file mode\<close>

text \<open>
  Through the file input the limits are enforced: a batch of accepted files that would
  exceed \<open>maxFiles\<close> or \<open>maxTotalSize\<close> leaves the state as it was and raises one
  error, the count error if the count is exceeded and the size error otherwise; the two
  messages differ.
\<close>

lemma onChange_over_limit_rejected:
  assumes "multiple p" and "\<forall>file \<in> set batch. accepted h p file"
    and "limit_error h p (files st) batch = Some msg"
  shows "onChange h p (Some batch) st =
     (st, predicate_calls h p batch @
        [Toast msg ''Please remove some files before adding more.'' True, OnValidationError msg])"
proof -
  have "filter (accepted h p) batch = batch" using assms(2) by simp
  then show ?thesis
    using handleFileChange_multiple_rejected [of p h "files st" batch msg st] assms
    by (simp add: onChange_def)
qed

text \<open>
  C1 (a batch that would exceed \<open>maxFiles\<close> or \<open>maxTotalSize\<close> is rejected whole, with
  the selection unchanged and an error naming the limit) does not hold for dropped
  files. The memoised \<open>handleDrop\<close> tests the limits against the selection of the first
  render, which is empty, while \<open>setFiles((prev) => ...)\<close> appends to the current one.
  With \<open>a.jpg\<close> and \<open>b.png\<close> selected through the file input (\<open>maxFiles = 2\<close>,
  \<open>maxTotalSize = 1500\<close>, 1200 bytes selected), dropping the accepted \<open>c.jpg\<close> (400
  bytes) exceeds both limits and is admitted, with no error; the same batch through the
  file input is rejected with the count error and the state unchanged.
\<close>

theorem drop_ignores_selection:
  "fst (onChange demo_host image_props (Some [file_a, file_b]) initial_state) = state_ab
   \<and> multiple image_props \<and> accepted demo_host image_props file_c
   \<and> int (length (files state_ab) + length [file_c]) > maxFiles image_props
   \<and> int (totalSize (files state_ab) + totalSize [file_c]) > maxTotalSize image_props
   \<and> handleDrop demo_host image_props [file_c] state_ab =
       (state_ab\<lparr>files := [file_a, file_b, file_c]\<rparr>, [ValidateFile file_c, OnFileSelected [file_c]])
   \<and> onChange demo_host image_props (Some [file_c]) state_ab =
       (state_ab,
        [ValidateFile file_c,
         Toast ''Maximum 2 files allowed'' ''Please remove some files before adding more.'' True,
         OnValidationError ''Maximum 2 files allowed''])"
  by code_simp




section \<open>Single-file mode\<close>

text \<open>
  C3. In single-file mode, a selection event with one accepted file makes that file the
  whole selection, whatever was selected before and whatever \<open>maxFiles\<close> and
  \<open>maxTotalSize\<close> are: the selection has exactly one element and no validation error is
  raised.
\<close>

theorem single_file_replaces_selection:
  assumes "\<not> multiple p" and "accepted h p file"
  shows "files (fst (handleFileChange h p files_seen (Some [file]) st)) = [file]
     \<and> length (files (fst (handleFileChange h p files_seen (Some [file]) st))) = 1
     \<and> (\<forall>msg. OnValidationError msg \<notin> set (snd (handleFileChange h p files_seen (Some [file]) st)))"
proof -
  have l: "validation_loop h p [file] ([], [], []) = ([], [file], predicate_calls h p [file])"
    using validation_loop_all_valid [of "[file]" h p "[]" "[]" "[]"] assms(2) by simp
  have f: "files (fst (handleFileChange h p files_seen (Some [file]) st)) = [file]"
    using handleFileChange_single_files [OF assms(1), of h files_seen "[file]" st] assms(2) by simp
  have e: "snd (handleFileChange h p files_seen (Some [file]) st)
         = predicate_calls h p [file] @ snd (select_valid h p [file] (st\<lparr>files := [file]\<rparr>))"
    using assms(1) l by (simp add: handleFileChange_def report_errors_def split: prod.splits)
  show ?thesis
    using f e select_valid_no_validation_error predicate_calls_no_validation_error by simp
qed

theorem single_file_replaces_selection_witness:
  "\<not> multiple (single_props\<lparr>maxFiles := 0, maxTotalSize := 500\<rparr>)
   \<and> accepted demo_host (single_props\<lparr>maxFiles := 0, maxTotalSize := 500\<rparr>) file_a
   \<and> files (fst (handleFileChange demo_host (single_props\<lparr>maxFiles := 0, maxTotalSize := 500\<rparr>)
         (files state_ab) (Some [file_a]) state_ab)) = [file_a]"
proof -
  have m: "\<not> multiple (single_props\<lparr>maxFiles := 0, maxTotalSize := 500\<rparr>)" by code_simp
  have a: "accepted demo_host (single_props\<lparr>maxFiles := 0, maxTotalSize := 500\<rparr>) file_a" by code_simp
  show ?thesis
    using single_file_replaces_selection [OF m a, of "files state_ab" state_ab] m a by simp
qed

text \<open>
  C10. In single-file mode the selection after an event is the list of the accepted
  files of the event: empty when no file is accepted, so that the previous selection is
  cleared, and the whole batch when several files are delivered and all are accepted.
\<close>

theorem single_mode_takes_all_valid:
  assumes "\<not> multiple p"
  shows "files (fst (handleFileChange h p files_seen (Some batch) st)) = filter (accepted h p) batch
     \<and> ((\<forall>file \<in> set batch. \<not> accepted h p file) \<longrightarrow>
          files (fst (handleFileChange h p files_seen (Some batch) st)) = [])
     \<and> ((\<forall>file \<in> set batch. accepted h p file) \<longrightarrow>
          files (fst (handleFileChange h p files_seen (Some batch) st)) = batch)"
  using handleFileChange_single_files [OF assms, of h files_seen batch st]
  by (simp add: filter_empty_conv)

theorem single_mode_takes_all_valid_witness:
  "\<not> multiple single_props
   \<and> \<not> accepted demo_host single_props big_exe
   \<and> files state_ab = [file_a, file_b]
   \<and> files (fst (handleFileChange demo_host single_props (files state_ab) (Some [big_exe]) state_ab)) = []
   \<and> accepted demo_host single_props file_c \<and> accepted demo_host single_props file_d
   \<and> files (fst (handleDrop demo_host single_props [file_c, file_d] state_ab)) = [file_c, file_d]"
proof -
  have m: "\<not> multiple single_props" by code_simp
  have n: "\<not> accepted demo_host single_props big_exe" by code_simp
  have y: "accepted demo_host single_props file_c" "accepted demo_host single_props file_d"
    by code_simp+
  have s: "files state_ab = [file_a, file_b]" by code_simp
  have d: "handleDrop demo_host single_props [file_c, file_d] state_ab
      = handleFileChange demo_host single_props [] (Some [file_c, file_d]) state_ab"
    by (simp add: handleDrop_def single_props_def image_props_def)
  show ?thesis
    using single_mode_takes_all_valid [OF m, of demo_host "files state_ab" "[big_exe]" state_ab]
      single_mode_takes_all_valid [OF m, of demo_host "[]" "[file_c, file_d]" state_ab]
      m n y s d
    by simp
qed

section \<open>Validation errors of a batch\<close>
























text \<open>
  A rejected file named \<open>__proto__\<close> leaves no trace at all: the assignment
  \<open>newErrors['__proto__'] = reason\<close> creates no property.
\<close>

lemma proto_rejection_lost:
  "fst (validate demo_host image_props proto_file) = Invalid ''File exceeds maximum size of 1000 Bytes''
   \<and> onChange demo_host image_props (Some [proto_file]) initial_state = (initial_state, [])"
  by code_simp

section \<open>One request per upload\<close>

lemma requests_sent_handleUpload: "requests_sent (snd (handleUpload h p fs st)) \<le> 1"
  by (auto simp: handleUpload_def requests_sent_def Let_def split: option.splits)

lemma upload_without_url:
  "uploadUrl p = None \<or> uploadUrl p = Some [] \<Longrightarrow> handleUpload h p fs st = (st, [])"
  by (auto simp: handleUpload_def)

lemma upload_open_throws:
  "uploadUrl p = Some url \<Longrightarrow> url \<noteq> [] \<Longrightarrow> fs \<noteq> [] \<Longrightarrow> xhr_open_error h url = Some msg \<Longrightarrow>
   handleUpload h p fs st =
     (st\<lparr>isUploading := False, uploadStatus := Error, uploadProgress := Num 0\<rparr>,
      [OnUploadError msg, Toast ''Upload failed'' msg True])"
  by (simp add: handleUpload_def Let_def)

text \<open>
  C4 (as the code has it). Uploading a non-empty list of files to a non-empty endpoint
  URL that \<open>xhr.open\<close> accepts sets the state to uploading and issues exactly one request:
  \<open>POST\<close> to that URL with one part named \<open>files\<close> per file, in order. When the request
  ends, a status from 200 to 299 gives the status \<open>success\<close> and hands the same files to
  \<open>onUploadSuccess\<close>; any other status gives \<open>error\<close> with a message that contains the
  status; a network error gives \<open>error\<close> with the network message.
\<close>

theorem upload_one_request:
  assumes "uploadUrl p = Some url" and "url \<noteq> []" and "filesToUpload \<noteq> []"
    and "xhr_open_error h url = None"
  shows "handleUpload h p filesToUpload st =
           (st\<lparr>isUploading := True, uploadStatus := Uploading, uploadProgress := Num 0\<rparr>,
            [XhrOpen ''POST'' url, XhrSend (map (Pair ''files'') filesToUpload)])
     \<and> requests_sent (snd (handleUpload h p filesToUpload st)) = 1
     \<and> (200 \<le> status \<and> status < 300 \<longrightarrow>
          uploadStatus (fst (xhr_listener filesToUpload (Load status statusText) st1)) = Success
          \<and> OnUploadSuccess filesToUpload
               \<in> set (snd (xhr_listener filesToUpload (Load status statusText) st1)))
     \<and> (\<not> (200 \<le> status \<and> status < 300) \<longrightarrow>
          uploadStatus (fst (xhr_listener filesToUpload (Load status statusText) st1)) = Error
          \<and> OnUploadError (''Upload failed with status '' @ digits status)
               \<in> set (snd (xhr_listener filesToUpload (Load status statusText) st1)))
     \<and> uploadStatus (fst (xhr_listener filesToUpload NetworkError st1)) = Error
     \<and> OnUploadError ''Network error during upload''
          \<in> set (snd (xhr_listener filesToUpload NetworkError st1))"
  using assms by (simp add: handleUpload_def requests_sent_def Let_def)

theorem upload_one_request_witness:
  "uploadUrl upload_props = Some ''/upload'' \<and> ''/upload'' \<noteq> [] \<and> [file_a, file_b] \<noteq> []
   \<and> xhr_open_error demo_host ''/upload'' = None
   \<and> handleUpload demo_host upload_props [file_a, file_b] state_ab =
        (state_ab\<lparr>isUploading := True, uploadStatus := Uploading, uploadProgress := Num 0\<rparr>,
         [XhrOpen ''POST'' ''/upload'', XhrSend (map (Pair ''files'') [file_a, file_b])])
   \<and> requests_sent (snd (handleUpload demo_host upload_props [file_a, file_b] state_ab)) = 1
   \<and> uploadStatus (fst (xhr_listener [file_a, file_b] (Load 200 ''OK'') uploading_state)) = Success
   \<and> OnUploadSuccess [file_a, file_b]
        \<in> set (snd (xhr_listener [file_a, file_b] (Load 200 ''OK'') uploading_state))
   \<and> uploadStatus (fst (xhr_listener [file_a, file_b] (Load 500 ''Internal Server Error'')
        uploading_state)) = Error
   \<and> OnUploadError (''Upload failed with status '' @ digits 500)
        \<in> set (snd (xhr_listener [file_a, file_b] (Load 500 ''Internal Server Error'')
             uploading_state))
   \<and> ''Upload failed with status '' @ digits 500 = ''Upload failed with status 500''
   \<and> uploadStatus (fst (xhr_listener [file_a, file_b] NetworkError uploading_state)) = Error
   \<and> OnUploadError ''Network error during upload''
        \<in> set (snd (xhr_listener [file_a, file_b] NetworkError uploading_state))"
proof -
  have h: "uploadUrl upload_props = Some ''/upload''" "''/upload'' \<noteq> []"
    "[file_a, file_b] \<noteq> []" "xhr_open_error demo_host ''/upload'' = None"
    by code_simp+
  have ok: "(200::nat) \<le> 200 \<and> (200::nat) < 300" by simp
  have ko: "\<not> ((200::nat) \<le> 500 \<and> (500::nat) < 300)" by simp
  have t: "''Upload failed with status '' @ digits 500 = ''Upload failed with status 500''"
    by code_simp
  show ?thesis
    using upload_one_request [OF h, of state_ab 200 "''OK''" uploading_state]
      upload_one_request [OF h, of state_ab 500 "''Internal Server Error''" uploading_state]
      h ok ko t
    by blast
qed

text \<open>
  The claim fails for an empty list: \<open>handleUpload\<close> returns at once, no request is
  issued and the status stays \<open>idle\<close>.
\<close>

theorem upload_nothing_sends_nothing:
  "uploadUrl upload_props = Some ''/upload''
   \<and> handleUpload demo_host upload_props [] initial_state = (initial_state, [])
   \<and> requests_sent (snd (handleUpload demo_host upload_props [] initial_state)) = 0
   \<and> uploadStatus (fst (handleUpload demo_host upload_props [] initial_state)) = Idle"
  by code_simp

text \<open>The Upload button cannot start a second upload: it is disabled while one runs.\<close>

lemma click_upload_while_uploading: "isUploading st \<Longrightarrow> click_upload h p st = (st, [])"
  by (simp add: click_upload_def upload_button_enabled_def)

text \<open>
  C8 does not hold. \<open>handleUpload\<close> does not look at \<open>isUploading\<close>. With \<open>autoUpload\<close>,
  dropping \<open>a.jpg\<close> starts an upload; after a progress event of 40 percent, selecting
  \<open>c.jpg\<close> while that upload is in flight opens and sends a second request and resets
  the progress from 40 to 0; so does a direct call of \<open>handleUpload\<close>. Only the Upload
  button is guarded.
\<close>

theorem second_upload_while_uploading:
  "fst (run_events [file_a] [Progress True 40 100]
     (fst (handleDrop demo_host auto_props [file_a] initial_state))) = uploading_state
   \<and> isUploading uploading_state \<and> uploadStatus uploading_state = Uploading
   \<and> onChange demo_host auto_props (Some [file_c]) uploading_state =
       (uploading_state\<lparr>files := [file_a, file_c], uploadProgress := Num 0\<rparr>,
        [ValidateFile file_c, OnFileSelected [file_c],
         XhrOpen ''POST'' ''/upload'', XhrSend [(''files'', file_c)]])
   \<and> handleUpload demo_host auto_props [file_a] uploading_state =
       (uploading_state\<lparr>uploadProgress := Num 0\<rparr>,
        [XhrOpen ''POST'' ''/upload'', XhrSend [(''files'', file_a)]])
   \<and> click_upload demo_host auto_props uploading_state = (uploading_state, [])"
  by code_simp

section \<open>Rounding to binary64\<close>

lemma ilog2_int_nonneg: "0 \<le> ilog2_int a"
  by (induction a rule: ilog2_int.induct) (subst ilog2_int.simps, simp)

lemma ilog2_int_bounds:
  "1 \<le> a \<Longrightarrow> 2 ^ nat (ilog2_int a) \<le> a \<and> a < 2 * 2 ^ nat (ilog2_int a)"
proof (induction a rule: ilog2_int.induct)
  case (1 a)
  show ?case
  proof (cases "a < 2")
    case True
    then have "a = 1" using "1.prems" by simp
    then show ?thesis by (simp add: ilog2_int.simps)
  next
    case False
    then have ih: "2 ^ nat (ilog2_int (a div 2)) \<le> a div 2"
      "a div 2 < 2 * 2 ^ nat (ilog2_int (a div 2))"
      using "1.IH" by simp_all
    have e: "ilog2_int a = 1 + ilog2_int (a div 2)"
      using False by (subst ilog2_int.simps) simp
    have p: "(2::int) ^ nat (1 + ilog2_int (a div 2)) = 2 * 2 ^ nat (ilog2_int (a div 2))"
      using ilog2_int_nonneg [of "a div 2"] by (simp add: nat_add_distrib)
    show ?thesis using ih unfolding e p by linarith
  qed
qed

lemma powi_two_pos: "0 < (2::rat) powi k"
  by simp

lemma powi_two_Suc: "(2::rat) powi (k + 1) = 2 * 2 powi k"
  by (simp add: power_int_add)

lemma powi_two_mono: "k \<le> l \<Longrightarrow> (2::rat) powi k \<le> 2 powi l"
  by (simp add: power_int_increasing)

lemma ilog2_bounds:
  assumes "0 < x"
  shows "2 powi (ilog2 x) \<le> x \<and> x < 2 powi (ilog2 x + 1)"
proof -
  obtain a b where q: "quotient_of x = (a, b)" by (cases "quotient_of x")
  have b: "0 < b" using q by (rule quotient_of_denom_pos)
  have x: "x = of_int a / of_int b" using q by (rule quotient_of_div)
  have a: "0 < a" using assms b x by (simp add: zero_less_divide_iff)
  define la where "la = ilog2_int a"
  define lb where "lb = ilog2_int b"
  have la0: "0 \<le> la" and lb0: "0 \<le> lb" by (simp_all add: la_def lb_def ilog2_int_nonneg)
  have A: "2 ^ nat la \<le> a" "a < 2 * 2 ^ nat la"
    using ilog2_int_bounds [of a] a by (simp_all add: la_def)
  have B: "2 ^ nat lb \<le> b" "b < 2 * 2 ^ nat lb"
    using ilog2_int_bounds [of b] b by (simp_all add: lb_def)
  have pa: "(2::rat) powi la = of_int (2 ^ nat la)" using la0 by (simp add: power_int_def)
  have pb: "(2::rat) powi lb = of_int (2 ^ nat lb)" using lb0 by (simp add: power_int_def)
  have Ar: "2 powi la \<le> (of_int a :: rat)" "(of_int a :: rat) < 2 * 2 powi la"
    unfolding pa using A by (metis of_int_le_iff, metis of_int_less_iff of_int_mult of_int_numeral)
  have Br: "2 powi lb \<le> (of_int b :: rat)" "(of_int b :: rat) < 2 * 2 powi lb"
    unfolding pb using B by (metis of_int_le_iff, metis of_int_less_iff of_int_mult of_int_numeral)
  have bpos: "0 < (of_int b :: rat)" using b by simp
  have d: "(2::rat) powi (la - lb) = 2 powi la / 2 powi lb"
    by (simp add: power_int_diff)
  have up: "x < 2 * 2 powi (la - lb)"
  proof -
    have "x * 2 powi lb \<le> x * of_int b" using Br(1) assms by (simp add: mult_left_mono)
    also have "\<dots> = of_int a" using x bpos by simp
    also have "\<dots> < 2 * 2 powi la" by (rule Ar(2))
    finally have "x < 2 * 2 powi la / 2 powi lb" by (simp add: pos_less_divide_eq)
    then show ?thesis by (simp add: d)
  qed
  have lo: "2 powi (la - lb - 1) < x"
  proof -
    have "(2::rat) powi la \<le> of_int a" by (rule Ar(1))
    also have "\<dots> = x * of_int b" using x bpos by simp
    also have "\<dots> < x * (2 * 2 powi lb)" using Br(2) assms by (simp add: mult_strict_left_mono)
    finally have "2 powi la / (2 * 2 powi lb) < x" by (simp add: pos_divide_less_eq mult.commute)
    moreover have "(2::rat) powi (la - lb - 1) = 2 powi la / (2 * 2 powi lb)"
      by (simp add: power_int_diff)
    ultimately show ?thesis by simp
  qed
  have e: "ilog2 x = (if 2 powi (la - lb) \<le> x then la - lb else la - lb - 1)"
    by (simp add: ilog2_def q la_def lb_def Let_def)
  show ?thesis
  proof (cases "2 powi (la - lb) \<le> x")
    case True
    then show ?thesis using up e by (simp add: powi_two_Suc)
  next
    case False
    then have "x < 2 powi (la - lb - 1 + 1)" by simp
    then show ?thesis using lo e False by (simp del: power_int_diff)
  qed
qed

lemma round_ties_even_cases:
  "round_ties_even z = \<lfloor>z\<rfloor> \<or> round_ties_even z = \<lfloor>z\<rfloor> + 1"
  by (simp add: round_ties_even_def Let_def)

lemma round_ties_even_lower: "z - 1 / 2 \<le> of_int (round_ties_even z)"
  by (simp add: round_ties_even_def Let_def) linarith

lemma round_ties_even_upper: "of_int (round_ties_even z) \<le> z + 1 / 2"
  by (simp add: round_ties_even_def Let_def) linarith

lemma round_ties_even_of_int [simp]: "round_ties_even (of_int n) = n"
  by (simp add: round_ties_even_def)

lemma round_ties_even_mono:
  assumes "z \<le> w"
  shows "round_ties_even z \<le> round_ties_even w"
proof (cases "\<lfloor>z\<rfloor> = \<lfloor>w\<rfloor>")
  case True
  then show ?thesis using assms by (auto simp: round_ties_even_def Let_def)
next
  case False
  then have "\<lfloor>z\<rfloor> + 1 \<le> \<lfloor>w\<rfloor>" using assms floor_mono [of z w] by linarith
  moreover have "round_ties_even z \<le> \<lfloor>z\<rfloor> + 1"
    using round_ties_even_cases [of z] by linarith
  moreover have "\<lfloor>w\<rfloor> \<le> round_ties_even w"
    using round_ties_even_cases [of w] by linarith
  ultimately show ?thesis by linarith
qed

lemma round_ties_even_ge_int: "of_int n \<le> z \<Longrightarrow> n \<le> round_ties_even z"
  using round_ties_even_mono [of "of_int n" z] by simp

lemma round_ties_even_le_int: "z \<le> of_int n \<Longrightarrow> round_ties_even z \<le> n"
  using round_ties_even_mono [of z "of_int n"] by simp

lemma to_double_unfold:
  "0 < x \<Longrightarrow> to_double x = of_int (round_ties_even (x / 2 powi (ilog2 x - 52))) * 2 powi (ilog2 x - 52)"
  by (simp add: to_double_def Let_def)

lemma to_double_nonpos [simp]: "x \<le> 0 \<Longrightarrow> to_double x = 0"
  by (simp add: to_double_def)

lemma two_powi_52: "(2::rat) powi k = 2 ^ 52 * 2 powi (k - 52)"
proof -
  have "(2::rat) powi k = 2 powi (52 + (k - 52))" by simp
  also have "\<dots> = 2 powi 52 * 2 powi (k - 52)" by (subst power_int_add) simp_all
  finally show ?thesis by simp
qed

lemma to_double_bounds:
  assumes "0 < x"
  shows "2 powi (ilog2 x) \<le> to_double x" and "to_double x \<le> 2 powi (ilog2 x + 1)"
proof -
  define u where "u = (2::rat) powi (ilog2 x - 52)"
  have u: "0 < u" by (simp add: u_def)
  have b: "2 powi (ilog2 x) \<le> x" "x < 2 powi (ilog2 x + 1)"
    using ilog2_bounds [OF assms] by simp_all
  have p: "(2::rat) powi (ilog2 x) = 2 ^ 52 * u" unfolding u_def by (rule two_powi_52)
  have p1: "(2::rat) powi (ilog2 x + 1) = 2 ^ 53 * u"
    unfolding powi_two_Suc p by simp
  have lo: "of_int (2 ^ 52) \<le> x / u" using b(1) u by (simp add: p pos_le_divide_eq)
  have hi: "x / u \<le> of_int (2 ^ 53)" using b(2) u by (simp add: p1 pos_divide_le_eq)
  have "(2::int) ^ 52 \<le> round_ties_even (x / u)" by (rule round_ties_even_ge_int [OF lo])
  then have "(of_int (2 ^ 52) :: rat) \<le> of_int (round_ties_even (x / u))" by (simp only: of_int_le_iff)
  then have "2 ^ 52 * u \<le> of_int (round_ties_even (x / u)) * u" using u by simp
  then show "2 powi (ilog2 x) \<le> to_double x"
    using assms by (simp add: to_double_unfold p u_def [symmetric])
  have "round_ties_even (x / u) \<le> 2 ^ 53" by (rule round_ties_even_le_int [OF hi])
  then have "(of_int (round_ties_even (x / u)) :: rat) \<le> of_int (2 ^ 53)" by (simp only: of_int_le_iff)
  then have "of_int (round_ties_even (x / u)) * u \<le> 2 ^ 53 * u" using u by simp
  then show "to_double x \<le> 2 powi (ilog2 x + 1)"
    using assms by (simp add: to_double_unfold p1 u_def [symmetric])
qed

lemma to_double_pos: "0 < x \<Longrightarrow> 0 < to_double x"
  using to_double_bounds(1) [of x] powi_two_pos [of "ilog2 x"] by linarith

lemma to_double_nonneg: "0 \<le> to_double x"
  using to_double_pos [of x] by (cases "0 < x") (simp_all add: less_imp_le)

lemma ilog2_mono:
  assumes "0 < x" and "x \<le> y"
  shows "ilog2 x \<le> ilog2 y"
proof (rule ccontr)
  assume "\<not> ilog2 x \<le> ilog2 y"
  then have "ilog2 y + 1 \<le> ilog2 x" by simp
  then have "(2::rat) powi (ilog2 y + 1) \<le> 2 powi (ilog2 x)" by (rule powi_two_mono)
  moreover have "y < 2 powi (ilog2 y + 1)" using ilog2_bounds [of y] assms by simp
  moreover have "2 powi (ilog2 x) \<le> x" using ilog2_bounds [OF assms(1)] by simp
  ultimately show False using assms(2) by linarith
qed

lemma to_double_mono:
  assumes "x \<le> y"
  shows "to_double x \<le> to_double y"
proof (cases "0 < x")
  case False
  then show ?thesis using to_double_nonneg [of y] by simp
next
  case True
  then have y: "0 < y" using assms by simp
  show ?thesis
  proof (cases "ilog2 x = ilog2 y")
    case True
    define u where "u = (2::rat) powi (ilog2 y - 52)"
    have u: "0 < u" by (simp add: u_def)
    have "x / u \<le> y / u" using assms u by (simp add: divide_right_mono)
    then have "round_ties_even (x / u) \<le> round_ties_even (y / u)" by (rule round_ties_even_mono)
    then have "(of_int (round_ties_even (x / u)) :: rat) \<le> of_int (round_ties_even (y / u))"
      by (simp only: of_int_le_iff)
    then have "of_int (round_ties_even (x / u)) * u \<le> of_int (round_ties_even (y / u)) * u"
      using u by simp
    then show ?thesis using \<open>0 < x\<close> y True by (simp add: to_double_unfold u_def [symmetric])
  next
    case False
    then have "ilog2 x + 1 \<le> ilog2 y" using ilog2_mono [OF \<open>0 < x\<close> assms] by simp
    then have "(2::rat) powi (ilog2 x + 1) \<le> 2 powi (ilog2 y)" by (rule powi_two_mono)
    then show ?thesis
      using to_double_bounds(2) [OF \<open>0 < x\<close>] to_double_bounds(1) [OF y] by linarith
  qed
qed

lemma to_double_error:
  assumes "0 \<le> x"
  shows "\<bar>to_double x - x\<bar> \<le> x / 2 ^ 53"
proof (cases "0 < x")
  case False
  then show ?thesis using assms by simp
next
  case True
  define u where "u = (2::rat) powi (ilog2 x - 52)"
  have u: "0 < u" by (simp add: u_def)
  have p: "(2::rat) powi (ilog2 x) = 2 ^ 52 * u" unfolding u_def by (rule two_powi_52)
  have ux: "2 ^ 52 * u \<le> x" using ilog2_bounds [OF True] by (simp add: p)
  define m where "m = round_ties_even (x / u)"
  have "\<bar>of_int m - x / u\<bar> \<le> 1 / 2"
    using round_ties_even_lower [of "x / u"] round_ties_even_upper [of "x / u"]
    unfolding m_def by linarith
  then have "\<bar>of_int m - x / u\<bar> * u \<le> 1 / 2 * u" using u by (simp add: mult_right_mono)
  moreover have "\<bar>of_int m - x / u\<bar> * u = \<bar>of_int m * u - x\<bar>"
  proof -
    have "\<bar>of_int m - x / u\<bar> * u = \<bar>(of_int m - x / u) * u\<bar>" using u by (simp add: abs_mult)
    also have "(of_int m - x / u) * u = of_int m * u - x" using u by (simp add: left_diff_distrib)
    finally show ?thesis .
  qed
  ultimately have "\<bar>of_int m * u - x\<bar> \<le> u / 2" by simp
  moreover have "u / 2 \<le> x / 2 ^ 53" using ux by simp
  ultimately show ?thesis using True by (simp add: to_double_unfold u_def [symmetric] m_def)
qed

lemma to_double_1: "to_double 1 = 1" by code_simp
lemma to_double_100: "to_double 100 = 100" by code_simp

lemma ToNumber_nonneg: "0 \<le> ToNumber w"
  by (simp add: ToNumber_def to_double_nonneg)

lemma ToNumber_mono:
  assumes "a \<le> b"
  shows "ToNumber a \<le> ToNumber b"
proof -
  have "uint a \<le> uint b" using assms by (simp add: word_le_def)
  then have "(of_int (uint a) :: rat) \<le> of_int (uint b)" by (simp only: of_int_le_iff)
  then show ?thesis unfolding ToNumber_def by (rule to_double_mono)
qed

lemma ToNumber_pos:
  assumes "0 < w"
  shows "0 < ToNumber w"
proof -
  have "0 < uint w" using assms by (simp add: word_less_def)
  then have "(0::rat) < of_int (uint w)" by (simp only: of_int_0_less_iff)
  then show ?thesis unfolding ToNumber_def by (rule to_double_pos)
qed

lemma Math_round_of_int: "Math_round (of_int n) = n"
  unfolding Math_round_def by (rule floor_unique) simp_all

lemma Math_round_mono: "x \<le> y \<Longrightarrow> Math_round x \<le> Math_round y"
  by (simp add: Math_round_def floor_mono)

lemma percent_mono:
  assumes "a \<le> b" and "0 < tot"
  shows "percent a tot \<le> percent b tot"
proof -
  have t: "0 < ToNumber tot" by (rule ToNumber_pos [OF assms(2)])
  have "ToNumber a / ToNumber tot \<le> ToNumber b / ToNumber tot"
    using ToNumber_mono [OF assms(1)] t by (simp add: divide_right_mono)
  then have "to_double (ToNumber a / ToNumber tot) * 100
      \<le> to_double (ToNumber b / ToNumber tot) * 100"
    using to_double_mono by simp
  then show ?thesis unfolding percent_def by (intro Math_round_mono to_double_mono)
qed

lemma percent_nonneg: "0 \<le> percent a tot"
proof -
  have "0 \<le> to_double (to_double (ToNumber a / ToNumber tot) * 100)" by (rule to_double_nonneg)
  then show ?thesis unfolding percent_def Math_round_def by simp
qed

lemma percent_total: "0 < tot \<Longrightarrow> percent tot tot = 100"
proof -
  assume "0 < tot"
  then have "ToNumber tot / ToNumber tot = 1" using ToNumber_pos [of tot] by simp
  then show ?thesis
    using Math_round_of_int [of 100] by (simp add: percent_def to_double_1 to_double_100)
qed

lemma percent_le_100:
  assumes "a \<le> tot" and "0 < tot"
  shows "percent a tot \<le> 100"
  using percent_mono [OF assms] percent_total [OF assms(2)] by simp

lemma quotient_error:
  fixes x y L T :: rat
  assumes x: "0 \<le> x" and xy: "x \<le> y" and y: "0 < y"
    and L: "\<bar>L - x\<bar> \<le> x * e" and T: "\<bar>T - y\<bar> \<le> y * e"
    and e: "0 \<le> e" "e \<le> 1 / 2"
  shows "\<bar>L / T - x / y\<bar> \<le> 4 * e"
proof -
  have Tlow: "y / 2 \<le> T"
  proof -
    have "y - y * e \<le> T" using T by linarith
    moreover have "y * e \<le> y * (1 / 2)" using e(2) y by (intro mult_left_mono) simp_all
    ultimately show ?thesis by simp
  qed
  then have Tpos: "0 < T" using y by linarith
  have num: "\<bar>L * y - x * T\<bar> \<le> 2 * e * x * y"
  proof -
    have "L * y - x * T = (L - x) * y - x * (T - y)" by (simp add: algebra_simps)
    then have "\<bar>L * y - x * T\<bar> \<le> \<bar>(L - x) * y\<bar> + \<bar>x * (T - y)\<bar>" by (simp add: abs_triangle_ineq4)
    also have "\<dots> = \<bar>L - x\<bar> * y + x * \<bar>T - y\<bar>" using x y by (simp add: abs_mult)
    also have "\<dots> \<le> (x * e) * y + x * (y * e)"
      using L T x y by (intro add_mono mult_right_mono mult_left_mono) simp_all
    finally show ?thesis by (simp add: algebra_simps)
  qed
  have "L / T - x / y = (L * y - x * T) / (T * y)" using Tpos y by (simp add: field_simps)
  then have "\<bar>L / T - x / y\<bar> = \<bar>L * y - x * T\<bar> / (T * y)" using Tpos y by (simp add: abs_mult)
  also have "\<dots> \<le> (2 * e * x * y) / (T * y)"
    using num Tpos y by (intro divide_right_mono) simp_all
  also have "\<dots> = 2 * e * x / T" using y by simp
  also have "\<dots> \<le> 2 * e * x / (y / 2)"
    using Tlow y x e(1) by (intro divide_left_mono) simp_all
  also have "\<dots> = 4 * e * (x / y)" by simp
  also have "\<dots> \<le> 4 * e * 1"
    using xy y e(1) by (intro mult_left_mono) simp_all
  finally show ?thesis by simp
qed

lemma Math_round_error: "\<bar>of_int (Math_round r) - r\<bar> \<le> 1 / 2"
  unfolding Math_round_def by linarith

lemma percent_error:
  assumes "a \<le> tot" and "0 < tot"
  shows "\<bar>of_int (percent a tot) - 100 * of_int (uint a) / of_int (uint tot)\<bar>
           \<le> (1 / 2 + 600 / 2 ^ 53 :: rat)"
proof -
  define e :: rat where "e = 1 / 2 ^ 53"
  define x :: rat where "x = of_int (uint a)"
  define y :: rat where "y = of_int (uint tot)"
  define L where "L = ToNumber a"
  define T where "T = ToNumber tot"
  define q where "q = to_double (L / T)"
  define r where "r = to_double (q * 100)"
  have e: "0 \<le> e" "e \<le> 1 / 2" by (simp_all add: e_def)
  have x0: "0 \<le> x" unfolding x_def by (simp only: of_int_0_le_iff uint_ge_0)
  have "uint a \<le> uint tot" using assms(1) by (simp add: word_le_def)
  then have xy: "x \<le> y" unfolding x_def y_def by (simp only: of_int_le_iff)
  have "0 < uint tot" using assms(2) by (simp add: word_less_def)
  then have y0: "0 < y" unfolding y_def by (simp only: of_int_0_less_iff)
  have Lx: "\<bar>L - x\<bar> \<le> x * e"
    using to_double_error [OF x0] by (simp add: L_def ToNumber_def x_def e_def)
  have Ty: "\<bar>T - y\<bar> \<le> y * e"
    using to_double_error [of y] y0 by (simp add: T_def ToNumber_def y_def e_def)
  have Q: "\<bar>L / T - x / y\<bar> \<le> 4 * e"
    by (rule quotient_error [OF x0 xy y0 Lx Ty e])
  have T0: "0 < T" unfolding T_def by (rule ToNumber_pos [OF assms(2)])
  have L0: "0 \<le> L" unfolding L_def by (rule ToNumber_nonneg)
  have LT: "L \<le> T" unfolding L_def T_def by (rule ToNumber_mono [OF assms(1)])
  have Q0: "0 \<le> L / T" using L0 T0 by simp
  have Q1: "L / T \<le> 1" using LT T0 by simp
  have q1: "q \<le> 1" unfolding q_def using to_double_mono [OF Q1] by (simp add: to_double_1)
  have q0: "0 \<le> q" unfolding q_def by (rule to_double_nonneg)
  have "\<bar>q - L / T\<bar> \<le> (L / T) * e"
    using to_double_error [OF Q0] by (simp add: q_def e_def)
  also have "\<dots> \<le> 1 * e" using Q1 e(1) by (intro mult_right_mono) simp_all
  finally have qQ: "\<bar>q - L / T\<bar> \<le> e" by simp
  have "\<bar>r - q * 100\<bar> \<le> (q * 100) * e"
    using to_double_error [of "q * 100"] q0 by (simp add: r_def e_def)
  also have "\<dots> \<le> (1 * 100) * e" using q1 e(1) by (intro mult_right_mono) simp_all
  finally have rq: "\<bar>r - q * 100\<bar> \<le> 100 * e" by simp
  have "\<bar>r - 100 * (x / y)\<bar> \<le> 600 * e" using rq qQ Q by linarith
  moreover have "\<bar>of_int (percent a tot) - r\<bar> \<le> 1 / 2"
    using Math_round_error [of r] by (simp add: percent_def r_def q_def L_def T_def)
  ultimately have "\<bar>of_int (percent a tot) - 100 * (x / y)\<bar> \<le> 1 / 2 + 600 * e" by linarith
  then show ?thesis by (simp add: x_def y_def e_def)
qed

section \<open>Progress percentages\<close>

lemma percent_nearest:
  assumes "a \<le> tot" and "0 < tot" and "uint tot < 2 ^ 42"
  shows "\<bar>of_int (percent a tot) - 100 * of_int (uint a) / of_int (uint tot)\<bar> \<le> (1 / 2 :: rat)"
proof -
  define p where "p = percent a tot"
  define x where "x = uint a"
  define y where "y = uint tot"
  define D :: rat where "D = of_int p - 100 * of_int x / of_int y"
  define Y :: rat where "Y = of_int y"
  define k where "k = 2 * y * p - 200 * x"
  have y0: "0 < y" using assms(2) by (simp add: y_def word_less_def)
  have Y0: "0 < Y" using y0 by (simp add: Y_def)
  have b: "\<bar>D\<bar> \<le> 1 / 2 + 600 / 2 ^ 53"
    unfolding D_def p_def x_def y_def by (rule percent_error [OF assms(1,2)])
  have Dk: "D * (2 * Y) = of_int k"
    using Y0 by (simp add: D_def Y_def k_def field_simps)
  have "Y < of_int (2 ^ 42)" using assms(3) unfolding Y_def y_def by (simp only: of_int_less_iff)
  then have small: "1200 / 2 ^ 53 * Y < 1" by simp
  have "\<bar>D\<bar> * (2 * Y) \<le> (1 / 2 + 600 / 2 ^ 53) * (2 * Y)"
    using b Y0 by (intro mult_right_mono) simp_all
  also have "\<dots> = Y + 1200 / 2 ^ 53 * Y" by (simp add: algebra_simps)
  also have "\<dots> < Y + 1" using small by simp
  finally have "\<bar>D\<bar> * (2 * Y) < Y + 1" .
  moreover have "\<bar>D\<bar> * (2 * Y) = \<bar>D * (2 * Y)\<bar>" using Y0 by (simp add: abs_mult)
  ultimately have "\<bar>D * (2 * Y)\<bar> < Y + 1" by simp
  then have "\<bar>(of_int k :: rat)\<bar> < of_int (y + 1)" unfolding Dk by (simp add: Y_def)
  then have "(of_int \<bar>k\<bar> :: rat) < of_int (y + 1)" by (simp only: of_int_abs)
  then have "\<bar>k\<bar> < y + 1" by (simp only: of_int_less_iff)
  then have "\<bar>k\<bar> \<le> y" by simp
  then have "(of_int \<bar>k\<bar> :: rat) \<le> of_int y" by (simp only: of_int_le_iff)
  then have "\<bar>(of_int k :: rat)\<bar> \<le> of_int y" by (simp only: of_int_abs)
  then have "\<bar>D * (2 * Y)\<bar> \<le> Y" unfolding Dk unfolding Y_def .
  then have "\<bar>D\<bar> * (2 * Y) \<le> Y" using Y0 by (simp add: abs_mult)
  then have "\<bar>D\<bar> \<le> Y / (2 * Y)" using Y0 by (simp add: pos_le_divide_eq)
  then have "\<bar>D\<bar> \<le> 1 / 2" using Y0 by simp
  then show ?thesis by (simp add: D_def p_def x_def y_def)
qed

text \<open>
  A tie need not go up as \<open>Math.round\<close> of the exact ratio would: 29 of 200 bytes are
  14.5 percent, the binary64 product is just below 14.5, and the code reports 14.
\<close>

lemma percent_tie_example: "percent 29 200 = 14 \<and> \<lfloor>(100 * 29 / 200 :: rat) + 1 / 2\<rfloor> = 15"
  by code_simp

lemma run_events_append:
  "run_events fs (xs @ ys) st =
     (case run_events fs xs st of
        (st1, out1) \<Rightarrow> (case run_events fs ys st1 of (st2, out2) \<Rightarrow> (st2, out1 @ out2)))"
  by (induction xs arbitrary: st) (auto split: prod.splits)

lemma run_events_progress:
  "snd (run_events fs (map (\<lambda>l. Progress True l tot) ls) st)
     = map (\<lambda>l. OnUploadProgress (progress_value l tot)) ls"
proof (induction ls arbitrary: st)
  case Nil
  then show ?case by simp
next
  case (Cons a ls)
  obtain s2 o2 where r: "run_events fs (map (\<lambda>l. Progress True l tot) ls)
      (st\<lparr>uploadProgress := progress_value a tot\<rparr>) = (s2, o2)"
    by (cases "run_events fs (map (\<lambda>l. Progress True l tot) ls)
      (st\<lparr>uploadProgress := progress_value a tot\<rparr>)")
  then have "o2 = map (\<lambda>l. OnUploadProgress (progress_value l tot)) ls"
    using Cons [of "st\<lparr>uploadProgress := progress_value a tot\<rparr>"] by simp
  then show ?case using r by simp
qed

lemma progress_emitted_append:
  "progress_emitted (xs @ ys) = progress_emitted xs @ progress_emitted ys"
  by (simp add: progress_emitted_def)

lemma progress_emitted_progress:
  "progress_emitted (map (\<lambda>l. OnUploadProgress (f l)) ls) = map f ls"
  by (induction ls) (simp_all add: progress_emitted_def)

lemma progress_emitted_terminal:
  "progress_emitted (snd (xhr_listener fs (Load status statusText) st)) = []"
  "progress_emitted (snd (xhr_listener fs NetworkError st)) = []"
  by (simp_all add: progress_emitted_def)

lemma progress_value_percent: "0 < tot \<Longrightarrow> progress_value l tot = Num (of_int (percent l tot))"
  using ToNumber_pos [of tot] by (simp add: progress_value_def)

lemma sorted_map_percent:
  "0 < tot \<Longrightarrow> sorted ls \<Longrightarrow> sorted (map (\<lambda>l. percent l tot) ls)"
  by (induction ls) (auto simp: percent_mono)

text \<open>
  C9 (as the code has it). Let every progress event of an upload attempt be length
  computable, with one total greater than zero and with byte counts that do not
  decrease and do not exceed the total. Then one percentage is emitted per event; the
  percentages do not decrease; each is an integer from 0 to 100, within one half, plus
  a rounding error of at most \<open>600 / 2^53\<close>, of a hundred times the ratio of bytes sent
  to total bytes, and a nearest integer to it when the total is below \<open>2^42\<close> bytes; the
  terminal event emits none; and the last percentage is 100 if the last event reports
  all bytes sent.
\<close>

theorem progress_percentages:
  assumes "0 < tot" and "sorted ls" and "\<forall>l \<in> set ls. l \<le> tot"
  shows "progress_emitted (snd (run_events fs (map (\<lambda>l. Progress True l tot) ls) st))
           = map (\<lambda>l. Num (of_int (percent l tot))) ls
     \<and> progress_emitted (snd (run_events fs
           (map (\<lambda>l. Progress True l tot) ls @ [Load status statusText]) st))
           = map (\<lambda>l. Num (of_int (percent l tot))) ls
     \<and> sorted (map (\<lambda>l. percent l tot) ls)
     \<and> (\<forall>l \<in> set ls. 0 \<le> percent l tot \<and> percent l tot \<le> 100
           \<and> \<bar>of_int (percent l tot) - 100 * of_int (uint l) / of_int (uint tot)\<bar>
                \<le> (1 / 2 + 600 / 2 ^ 53 :: rat)
           \<and> (uint tot < 2 ^ 42 \<longrightarrow>
                \<bar>of_int (percent l tot) - 100 * of_int (uint l) / of_int (uint tot)\<bar>
                  \<le> (1 / 2 :: rat)))
     \<and> (ls \<noteq> [] \<and> last ls = tot \<longrightarrow> last (map (\<lambda>l. percent l tot) ls) = 100)"
proof -
  have v: "(\<lambda>l. progress_value l tot) = (\<lambda>l. Num (of_int (percent l tot)))"
    using progress_value_percent [OF assms(1)] by auto
  have e1: "progress_emitted (snd (run_events fs (map (\<lambda>l. Progress True l tot) ls) st))
      = map (\<lambda>l. Num (of_int (percent l tot))) ls"
    using progress_emitted_progress [of "\<lambda>l. progress_value l tot" ls]
    by (simp only: run_events_progress v)
  have e2: "progress_emitted (snd (run_events fs
        (map (\<lambda>l. Progress True l tot) ls @ [Load status statusText]) st))
      = progress_emitted (snd (run_events fs (map (\<lambda>l. Progress True l tot) ls) st))"
    by (auto simp: run_events_append progress_emitted_append progress_emitted_def
             split: prod.splits)
  have s: "sorted (map (\<lambda>l. percent l tot) ls)"
    by (rule sorted_map_percent [OF assms(1,2)])
  have each: "0 \<le> percent l tot \<and> percent l tot \<le> 100
      \<and> \<bar>of_int (percent l tot) - 100 * of_int (uint l) / of_int (uint tot)\<bar>
            \<le> (1 / 2 + 600 / 2 ^ 53 :: rat)
      \<and> (uint tot < 2 ^ 42 \<longrightarrow>
            \<bar>of_int (percent l tot) - 100 * of_int (uint l) / of_int (uint tot)\<bar>
              \<le> (1 / 2 :: rat))" if "l \<in> set ls" for l
  proof -
    have l: "l \<le> tot" using assms(3) that by simp
    show ?thesis
      using percent_nonneg [of l tot] percent_le_100 [OF l assms(1)]
        percent_error [OF l assms(1)] percent_nearest [OF l assms(1)]
      by blast
  qed
  have fin: "last (map (\<lambda>l. percent l tot) ls) = 100" if "ls \<noteq> []" "last ls = tot"
    using that percent_total [OF assms(1)] by (simp add: last_map)
  show ?thesis using e1 e2 s each fin by (simp only: simp_thms) blast
qed

theorem progress_percentages_witness:
  "(0 :: 64 word) < 100 \<and> sorted [0, 50, 100 :: 64 word]
   \<and> (0 :: 64 word) \<le> 100 \<and> (50 :: 64 word) \<le> 100 \<and> (100 :: 64 word) \<le> 100
   \<and> progress_emitted (snd (run_events [file_a]
         (map (\<lambda>l. Progress True l 100) [0, 50, 100] @ [Load 200 ''OK'']) uploading_state))
       = map (\<lambda>l. Num (of_int (percent l 100))) [0, 50, 100]
   \<and> map (\<lambda>l. percent l 100) [0, 50, 100] = [0, 50, 100]
   \<and> sorted (map (\<lambda>l. percent l 100) [0, 50, 100])
   \<and> last [0, 50, 100 :: 64 word] = 100
   \<and> last (map (\<lambda>l. percent l 100) [0, 50, 100]) = 100"
proof -
  have t: "(0 :: 64 word) < 100" by simp
  have s: "sorted [0, 50, 100 :: 64 word]" by simp
  have b: "(0 :: 64 word) \<le> 100" "(50 :: 64 word) \<le> 100" "(100 :: 64 word) \<le> 100" by simp_all
  then have a: "\<forall>l \<in> set [0, 50, 100 :: 64 word]. l \<le> 100" by simp
  have v: "map (\<lambda>l. percent l 100) [0, 50, 100] = [0, 50, 100]" by code_simp
  have n: "[0, 50, 100 :: 64 word] \<noteq> []" "last [0, 50, 100 :: 64 word] = 100" by simp_all
  show ?thesis
    using progress_percentages [OF t s a, of "[file_a]" uploading_state 200 "''OK''"] t s b v n
    by blast
qed

text \<open>
  Nothing in the code makes a successful attempt end at 100: the \<open>load\<close> listener
  leaves \<open>uploadProgress\<close> alone. An attempt whose only progress event reports 50 of 100
  bytes and which then loads with status 200 succeeds with 50 as its last percentage.
\<close>

theorem progress_stops_short:
  "run_events [file_a] [Progress True 50 100, Load 200 ''OK''] uploading_state =
     (uploading_state\<lparr>uploadProgress := Num 50, uploadStatus := Success, isUploading := False\<rparr>,
      [OnUploadProgress (Num 50), OnUploadSuccess [file_a],
       Toast ''Upload successful'' ''1 file uploaded successfully.'' False])
   \<and> progress_emitted (snd (run_events [file_a] [Progress True 50 100, Load 200 ''OK'']
        uploading_state)) = [Num 50]
   \<and> last (progress_emitted (snd (run_events [file_a] [Progress True 50 100, Load 200 ''OK'']
        uploading_state))) \<noteq> Num 100"
  by code_simp

end
